theory Spec2Isabelle
  imports Complex_Main "HOL-Library.Sublist"
begin

section \<open>Python strings\<close>

text \<open>
  A Python \<open>str\<close> is modelled as a \<open>string\<close>, one \<open>char\<close> per code point, so the model
  covers the code points 0 to 255. \<open>len\<close> is \<open>length\<close>, \<open>s[:n]\<close> is \<open>take n s\<close>,
  \<open>a in s\<close> on two strings is \<open>sublist a s\<close>, \<open>s.startswith(a)\<close> is \<open>prefix a s\<close> and
  \<open>s.endswith(a)\<close> is \<open>suffix a s\<close>.
\<close>

definition py_isspace :: "char \<Rightarrow> bool" where
  \<comment> \<open>\<open>str.isspace\<close> on the code points below 256\<close>
  "py_isspace c = (c \<in> {CHR 0x09, CHR 0x0A, CHR 0x0B, CHR 0x0C, CHR 0x0D, CHR 0x1C, CHR 0x1D,
     CHR 0x1E, CHR 0x1F, CHR 0x20, CHR 0x85, CHR 0xA0})"

definition lstrip :: "string \<Rightarrow> string" where
  "lstrip s = dropWhile py_isspace s"

definition rstrip :: "string \<Rightarrow> string" where
  "rstrip s = rev (dropWhile py_isspace (rev s))"

definition strip :: "string \<Rightarrow> string" where
  \<comment> \<open>\<open>s.strip()\<close>\<close>
  "strip s = lstrip (rstrip s)"

fun join :: "string \<Rightarrow> string list \<Rightarrow> string" where
  \<comment> \<open>\<open>sep.join(xs)\<close>\<close>
  "join sep [] = []"
| "join sep [x] = x"
| "join sep (x # y # ys) = x @ sep @ join sep (y # ys)"

fun find_lit :: "string \<Rightarrow> string \<Rightarrow> (string \<times> string) option" where
  \<comment> \<open>the text before and after the first occurrence of a literal, \<open>None\<close> when there is none\<close>
  "find_lit lit [] = (if lit = [] then Some ([], []) else None)"
| "find_lit lit (c # cs) =
     (if prefix lit (c # cs) then Some ([], drop (length lit) (c # cs))
      else (case find_lit lit cs of None \<Rightarrow> None | Some (b, a) \<Rightarrow> Some (c # b, a)))"

fun re_sub_scan :: "(string \<Rightarrow> (string \<times> string) option) \<Rightarrow> string \<Rightarrow> string" where
  \<comment> \<open>\<open>re.sub\<close> for a pattern without anchors that matches no empty string: \<open>m\<close> tries the
      pattern at the head of the remaining text and returns the replacement and the text after
      the match; the scan goes left to right over non-overlapping matches.\<close>
  "re_sub_scan m [] = []"
| "re_sub_scan m (c # cs) =
     (case m (c # cs) of
        None \<Rightarrow> c # re_sub_scan m cs
      | Some (rep, rest) \<Rightarrow>
          if length rest \<le> length cs then rep @ re_sub_scan m rest
          else c # re_sub_scan m cs)"

section \<open>Parsed log lines\<close>

text \<open>
  What \<open>json.loads\<close> returns for one line. An object keeps its keys in file order, each key
  once. Numbers are integers or finite fractions.
\<close>

datatype json =
    JNull
  | JBool bool
  | JInt int
  | JFloat rat
  | JStr string
  | JArr "json list"
  | JObj "(string \<times> json) list"

datatype py_error = KeyError | TypeError | AttributeError

definition dict_get :: "(string \<times> json) list \<Rightarrow> string \<Rightarrow> json \<Rightarrow> json" where
  \<comment> \<open>\<open>d.get(k, dflt)\<close> on a dict\<close>
  "dict_get kvs k dflt = (case map_of kvs k of None \<Rightarrow> dflt | Some v \<Rightarrow> v)"

definition py_get :: "json \<Rightarrow> string \<Rightarrow> json \<Rightarrow> py_error + json" where
  \<comment> \<open>\<open>x.get(k, dflt)\<close> on any value: only a dict has the method\<close>
  "py_get x k dflt = (case x of JObj kvs \<Rightarrow> Inr (dict_get kvs k dflt) | _ \<Rightarrow> Inl AttributeError)"

definition py_index :: "json \<Rightarrow> string \<Rightarrow> py_error + json" where
  \<comment> \<open>\<open>x[k]\<close> with a string key\<close>
  "py_index x k =
     (case x of
        JObj kvs \<Rightarrow> (case map_of kvs k of None \<Rightarrow> Inl KeyError | Some v \<Rightarrow> Inr v)
      | _ \<Rightarrow> Inl TypeError)"

definition py_iter :: "json \<Rightarrow> py_error + json list" where
  \<comment> \<open>the items of \<open>for b in x\<close>: a dict yields its keys, a string its characters\<close>
  "py_iter x =
     (case x of
        JArr xs \<Rightarrow> Inr xs
      | JObj kvs \<Rightarrow> Inr (map (\<lambda>kv. JStr (fst kv)) kvs)
      | JStr s \<Rightarrow> Inr (map (\<lambda>c. JStr [c]) s)
      | _ \<Rightarrow> Inl TypeError)"

definition truthy :: "json \<Rightarrow> bool" where
  \<comment> \<open>\<open>bool(x)\<close>\<close>
  "truthy x =
     (case x of
        JNull \<Rightarrow> False
      | JBool b \<Rightarrow> b
      | JInt i \<Rightarrow> i \<noteq> 0
      | JFloat q \<Rightarrow> q \<noteq> 0
      | JStr s \<Rightarrow> s \<noteq> []
      | JArr xs \<Rightarrow> xs \<noteq> []
      | JObj kvs \<Rightarrow> kvs \<noteq> [])"

definition hash_key :: "json \<Rightarrow> py_error + json" where
  \<comment> \<open>a value used as a dict key: lists and dicts are unhashable; \<open>True\<close>, \<open>1\<close> and \<open>1.0\<close>
      are one key\<close>
  "hash_key x =
     (case x of
        JArr xs \<Rightarrow> Inl TypeError
      | JObj kvs \<Rightarrow> Inl TypeError
      | JBool b \<Rightarrow> Inr (JInt (if b then 1 else 0))
      | JFloat q \<Rightarrow> Inr (if of_int \<lfloor>q\<rfloor> = q then JInt \<lfloor>q\<rfloor> else JFloat q)
      | _ \<Rightarrow> Inr x)"

fun foldE :: "('s \<Rightarrow> 'a \<Rightarrow> py_error + 's) \<Rightarrow> 'a list \<Rightarrow> 's \<Rightarrow> py_error + 's" where
  \<comment> \<open>a \<open>for\<close> loop over a list whose body may raise: the first exception ends the loop\<close>
  "foldE f [] s = Inr s"
| "foldE f (x # xs) s = (case f s x of Inl e \<Rightarrow> Inl e | Inr s' \<Rightarrow> foldE f xs s')"

section \<open>Turn reconstruction: \<open>parse_messages\<close>\<close>

datatype data_uri = DataURI json json
  \<comment> \<open>\<open>DataURI m d\<close> is the string \<open>f"data:{m};base64,{d}"\<close> of an image source, kept as
      its two fields\<close>

definition image_uri :: "(string \<times> json) list \<Rightarrow> data_uri" where
  "image_uri src =
     DataURI (dict_get src ''media_type'' (JStr ''image/jpeg'')) (dict_get src ''data'' (JStr ''''))"

record tool_entry =
  tool_name :: json
  tool_input :: json
  tool_id :: json
  tool_result :: string
  result_images :: "data_uri list"

record turn =
  role :: json
  timestamp :: json
  texts :: "string list"
  tool_uses :: "tool_entry list"
  images :: "data_uri list"

type_synonym result_maps = "(json \<rightharpoonup> string) \<times> (json \<rightharpoonup> data_uri list)"

subsection \<open>First pass: the tool results\<close>

text \<open>
  A \<open>result_maps\<close> pair is \<open>tool_results_map\<close> and \<open>tool_result_images\<close>, keyed by the
  hashed \<open>tool_use_id\<close>.
\<close>

fun collect_rc :: "string \<times> data_uri list \<Rightarrow> json \<Rightarrow> py_error + (string \<times> data_uri list)" where
  \<comment> \<open>one sub-block of a \<open>tool_result\<close> whose content is a list\<close>
  "collect_rc (result_text, imgs) rc =
     (case rc of
        JObj kvs \<Rightarrow>
          if dict_get kvs ''type'' JNull = JStr ''text'' then
            (case dict_get kvs ''text'' (JStr '''') of
               JStr t \<Rightarrow> Inr (result_text @ t @ ''\<newline>'', imgs)
             | _ \<Rightarrow> Inl TypeError)
          else if dict_get kvs ''type'' JNull = JStr ''image'' then
            (case dict_get kvs ''source'' (JObj []) of
               JObj src \<Rightarrow>
                 if dict_get src ''type'' JNull = JStr ''base64''
                 then Inr (result_text, imgs @ [image_uri src])
                 else Inr (result_text, imgs)
             | _ \<Rightarrow> Inl AttributeError)
          else Inr (result_text, imgs)
      | _ \<Rightarrow> Inr (result_text, imgs))"

definition block_result :: "json \<Rightarrow> py_error + (string \<times> data_uri list)" where
  \<comment> \<open>\<open>result_text\<close> and \<open>images\<close> of one \<open>tool_result\<close> block, before the \<open>strip\<close>\<close>
  "block_result result_content =
     (case result_content of
        JArr rcs \<Rightarrow> foldE collect_rc rcs ([], [])
      | JStr s \<Rightarrow> Inr (s, [])
      | _ \<Rightarrow> Inr ([], []))"

definition collect_block :: "result_maps \<Rightarrow> json \<Rightarrow> py_error + result_maps" where
  "collect_block maps block =
     (case block of
        JObj kvs \<Rightarrow>
          if dict_get kvs ''type'' JNull = JStr ''tool_result'' then
            (let tuid = dict_get kvs ''tool_use_id'' (JStr '''');
                 result_content = dict_get kvs ''content'' (JStr '''')
             in case block_result result_content of
                  Inl e \<Rightarrow> Inl e
                | Inr (result_text, imgs) \<Rightarrow>
                    if truthy tuid then
                      (case hash_key tuid of
                         Inl e \<Rightarrow> Inl e
                       | Inr k \<Rightarrow>
                           Inr ((fst maps)(k \<mapsto> strip result_text),
                                if imgs \<noteq> [] then (snd maps)(k \<mapsto> imgs) else snd maps))
                    else Inr maps)
          else Inr maps
      | _ \<Rightarrow> Inr maps)"

definition collect_record :: "result_maps \<Rightarrow> json \<Rightarrow> py_error + result_maps" where
  "collect_record maps d =
     (case py_index d ''type'' of
        Inl e \<Rightarrow> Inl e
      | Inr ty \<Rightarrow>
          if ty \<noteq> JStr ''user'' then Inr maps
          else
            (case py_get d ''message'' (JObj []) of
               Inl e \<Rightarrow> Inl e
             | Inr msg \<Rightarrow>
                 (case py_get msg ''content'' (JArr []) of
                    Inl e \<Rightarrow> Inl e
                  | Inr content \<Rightarrow>
                      (case content of
                         JStr s \<Rightarrow> Inr maps
                       | _ \<Rightarrow>
                           (case py_iter content of
                              Inl e \<Rightarrow> Inl e
                            | Inr blocks \<Rightarrow> foldE collect_block blocks maps)))))"

definition collect_results :: "json list \<Rightarrow> py_error + result_maps" where
  "collect_results all_records = foldE collect_record all_records (Map.empty, Map.empty)"

subsection \<open>Second pass: the turns\<close>

definition reminder_match :: "string \<Rightarrow> (string \<times> string) option" where
  \<comment> \<open>the pattern \<open><system-reminder>.*?</system-reminder>\<close> with \<open>re.DOTALL\<close>, replaced by
      the empty string: the span ends at the first closing marker\<close>
  "reminder_match s =
     (if prefix ''<system-reminder>'' s then
        (case find_lit ''</system-reminder>'' (drop (length ''<system-reminder>'') s) of
           None \<Rightarrow> None
         | Some (b, a) \<Rightarrow> Some ([], a))
      else None)"

definition strip_reminders :: "string \<Rightarrow> string" where
  "strip_reminders = re_sub_scan reminder_match"

definition marker_in :: "json \<Rightarrow> py_error + bool" where
  \<comment> \<open>\<open>'<system-reminder>' in text\<close>: a substring of a string, an item of a list, a key of a
      dict\<close>
  "marker_in text =
     (case text of
        JStr s \<Rightarrow> Inr (sublist ''<system-reminder>'' s)
      | JArr xs \<Rightarrow> Inr (JStr ''<system-reminder>'' \<in> set xs)
      | JObj kvs \<Rightarrow> Inr (''<system-reminder>'' \<in> set (map fst kvs))
      | _ \<Rightarrow> Inl TypeError)"

definition add_text :: "turn \<Rightarrow> json \<Rightarrow> py_error + turn" where
  "add_text t text =
     (case marker_in text of
        Inl e \<Rightarrow> Inl e
      | Inr has \<Rightarrow>
          if has \<and> role t = JStr ''user'' then
            (case text of
               JStr s \<Rightarrow>
                 (let cleaned = strip (strip_reminders s)
                  in Inr (if cleaned \<noteq> [] then t\<lparr>texts := texts t @ [cleaned]\<rparr> else t))
             | _ \<Rightarrow> Inl TypeError)
          else
            (case text of
               JStr s \<Rightarrow> Inr (if strip s \<noteq> [] then t\<lparr>texts := texts t @ [s]\<rparr> else t)
             | _ \<Rightarrow> Inl AttributeError))"

definition lookup_result :: "result_maps \<Rightarrow> json \<Rightarrow> string" where
  \<comment> \<open>\<open>tool_results_map.get(k, '')\<close> on a hashed key\<close>
  "lookup_result maps k = (case fst maps k of None \<Rightarrow> [] | Some r \<Rightarrow> r)"

definition lookup_images :: "result_maps \<Rightarrow> json \<Rightarrow> data_uri list" where
  \<comment> \<open>\<open>tool_result_images.get(k, [])\<close> on a hashed key\<close>
  "lookup_images maps k = (case snd maps k of None \<Rightarrow> [] | Some is \<Rightarrow> is)"

definition build_block :: "result_maps \<Rightarrow> turn \<Rightarrow> json \<Rightarrow> py_error + turn" where
  "build_block maps t block =
     (case block of
        JObj kvs \<Rightarrow>
          (let btype = dict_get kvs ''type'' (JStr '''') in
           if btype = JStr ''text'' then add_text t (dict_get kvs ''text'' (JStr ''''))
           else if btype = JStr ''tool_use'' then
             (let tuid = dict_get kvs ''id'' (JStr '''') in
              case hash_key tuid of
                Inl e \<Rightarrow> Inl e
              | Inr k \<Rightarrow>
                  Inr (t\<lparr>tool_uses := tool_uses t @
                        [\<lparr>tool_name = dict_get kvs ''name'' (JStr ''unknown''),
                          tool_input = dict_get kvs ''input'' (JObj []),
                          tool_id = tuid,
                          tool_result = lookup_result maps k,
                          result_images = lookup_images maps k\<rparr>]\<rparr>))
           else if btype = JStr ''image'' then
             (case dict_get kvs ''source'' (JObj []) of
                JObj src \<Rightarrow>
                  Inr (if dict_get src ''type'' JNull = JStr ''base64''
                       then t\<lparr>images := images t @ [image_uri src]\<rparr> else t)
              | _ \<Rightarrow> Inl AttributeError)
           else Inr t)
      | _ \<Rightarrow> Inr t)"

definition text_block :: "string \<Rightarrow> json" where
  \<comment> \<open>\<open>{"type": "text", "text": content}\<close>\<close>
  "text_block s = JObj [(''type'', JStr ''text''), (''text'', JStr s)]"

definition build_turn :: "result_maps \<Rightarrow> json \<Rightarrow> json \<Rightarrow> py_error + turn" where
  \<comment> \<open>the turn of a record \<open>d\<close> whose \<open>type\<close> is \<open>ty\<close>, before the visibility test\<close>
  "build_turn maps ty d =
     (case py_get d ''message'' (JObj []) of
        Inl e \<Rightarrow> Inl e
      | Inr msg \<Rightarrow>
          (case py_get msg ''role'' ty of
             Inl e \<Rightarrow> Inl e
           | Inr r \<Rightarrow>
               (case py_get msg ''content'' (JArr []) of
                  Inl e \<Rightarrow> Inl e
                | Inr content \<Rightarrow>
                    (case py_get d ''timestamp'' (JStr '''') of
                       Inl e \<Rightarrow> Inl e
                     | Inr ts \<Rightarrow>
                         (case py_iter
                                 (case content of
                                    JStr s \<Rightarrow> JArr [text_block s]
                                  | _ \<Rightarrow> content) of
                            Inl e \<Rightarrow> Inl e
                          | Inr blocks \<Rightarrow>
                              foldE (build_block maps) blocks
                                \<lparr>role = r, timestamp = ts, texts = [], tool_uses = [],
                                 images = []\<rparr>)))))"

definition visible :: "turn \<Rightarrow> bool" where
  \<comment> \<open>the test that appends a built turn to \<open>messages\<close>\<close>
  "visible t =
     (if role t = JStr ''user'' then texts t \<noteq> [] \<or> images t \<noteq> []
      else if role t = JStr ''assistant'' then
        texts t \<noteq> [] \<or> tool_uses t \<noteq> [] \<or> images t \<noteq> []
      else False)"

definition build_record :: "result_maps \<Rightarrow> turn list \<Rightarrow> json \<Rightarrow> py_error + turn list" where
  "build_record maps messages d =
     (case py_index d ''type'' of
        Inl e \<Rightarrow> Inl e
      | Inr ty \<Rightarrow>
          if ty \<noteq> JStr ''user'' \<and> ty \<noteq> JStr ''assistant'' then Inr messages
          else
            (case build_turn maps ty d of
               Inl e \<Rightarrow> Inl e
             | Inr t \<Rightarrow> Inr (if visible t then messages @ [t] else messages)))"

definition parse_messages :: "json list \<Rightarrow> py_error + turn list" where
  \<comment> \<open>\<open>parse_messages\<close> once the lines are read: \<open>all_records\<close> holds the parsed lines in
      file order\<close>
  "parse_messages all_records =
     (case collect_results all_records of
        Inl e \<Rightarrow> Inl e
      | Inr maps \<Rightarrow> foldE (build_record maps) all_records [])"

section \<open>The Markdown subset: \<open>md_to_html\<close>\<close>

definition escape_char :: "char \<Rightarrow> string" where
  "escape_char c =
     (if c = CHR ''&'' then ''&amp;''
      else if c = CHR ''<'' then ''&lt;''
      else if c = CHR ''>'' then ''&gt;''
      else if c = CHR 0x22 then ''&quot;''
      else if c = CHR 0x27 then ''&#x27;''
      else [c])"

definition html_escape :: "string \<Rightarrow> string" where
  \<comment> \<open>\<open>html.escape(s)\<close>, which also escapes both quotes\<close>
  "html_escape s = concat (map escape_char s)"

definition py_isword :: "char \<Rightarrow> bool" where
  \<comment> \<open>the class \<open>\w\<close> of a \<open>str\<close> pattern on the code points below 256\<close>
  "py_isword c =
     (let n = (of_char c :: nat) in
      (48 \<le> n \<and> n \<le> 57) \<or> (65 \<le> n \<and> n \<le> 90) \<or> n = 95 \<or> (97 \<le> n \<and> n \<le> 122) \<or>
      n \<in> {170, 178, 179, 181, 185, 186, 188, 189, 190} \<or>
      (192 \<le> n \<and> n \<le> 214) \<or> (216 \<le> n \<and> n \<le> 246) \<or> 248 \<le> n)"

fun find_line_lit :: "string \<Rightarrow> string \<Rightarrow> (string \<times> string) option" where
  \<comment> \<open>\<open>.*?\<close> followed by a literal, where \<open>.\<close> matches no newline: the text before and
      after the first occurrence of the literal, found before any newline\<close>
  "find_line_lit lit [] = (if lit = [] then Some ([], []) else None)"
| "find_line_lit lit (c # cs) =
     (if prefix lit (c # cs) then Some ([], drop (length lit) (c # cs))
      else if c = CHR ''\<newline>'' then None
      else (case find_line_lit lit cs of None \<Rightarrow> None | Some (b, a) \<Rightarrow> Some (c # b, a)))"

function split_str :: "string \<Rightarrow> string \<Rightarrow> string list" where
  \<comment> \<open>\<open>s.split(sep)\<close> for a separator that is not empty\<close>
  "split_str sep s =
     (case find_lit sep s of
        None \<Rightarrow> [s]
      | Some (b, a) \<Rightarrow> if length a < length s then b # split_str sep a else [s])"
  by pat_completeness auto
termination
  by (relation "measure (\<lambda>(sep, s). length s)") auto

declare split_str.simps [simp del]

definition code_block_match :: "string \<Rightarrow> (string \<times> string) option" where
  \<comment> \<open>the pattern \<open>```(\w*)\n(.*?)```\<close> with \<open>re.DOTALL\<close>\<close>
  "code_block_match s =
     (if prefix ''```'' s then
        (case dropWhile py_isword (drop 3 s) of
           [] \<Rightarrow> None
         | c # r \<Rightarrow>
             if c = CHR ''\<newline>'' then
               (case find_lit ''```'' r of
                  None \<Rightarrow> None
                | Some (code, a) \<Rightarrow>
                    Some (''<pre class=\"code-block\"><code>'' @ code @ ''</code></pre>'', a))
             else None)
      else None)"

definition inline_code_match :: "string \<Rightarrow> (string \<times> string) option" where
  \<comment> \<open>the pattern \<open>`([^`]+)`\<close>\<close>
  "inline_code_match s =
     (case s of
        [] \<Rightarrow> None
      | c # r \<Rightarrow>
          if c = CHR ''`'' then
            (let body = takeWhile (\<lambda>x. x \<noteq> CHR ''`'') r;
                 rest = dropWhile (\<lambda>x. x \<noteq> CHR ''`'') r
             in if body \<noteq> [] \<and> rest \<noteq> []
                then Some (''<code class=\"inline-code\">'' @ body @ ''</code>'', tl rest)
                else None)
          else None)"

definition bold_match :: "string \<Rightarrow> (string \<times> string) option" where
  \<comment> \<open>the pattern \<open>\*\*(.+?)\*\*\<close>\<close>
  "bold_match s =
     (if prefix ''**'' s then
        (case drop 2 s of
           [] \<Rightarrow> None
         | c # r \<Rightarrow>
             if c = CHR ''\<newline>'' then None
             else
               (case find_line_lit ''**'' r of
                  None \<Rightarrow> None
                | Some (b, a) \<Rightarrow> Some (''<strong>'' @ c # b @ ''</strong>'', a)))
      else None)"

definition sub_lines :: "(string \<Rightarrow> string) \<Rightarrow> string \<Rightarrow> string" where
  \<comment> \<open>\<open>re.sub\<close> with \<open>re.MULTILINE\<close> for a pattern \<open>^...(.+)$\<close>, which rewrites whole lines\<close>
  "sub_lines f text = join ''\<newline>'' (map f (split_str ''\<newline>'' text))"

definition heading_line :: "string \<Rightarrow> string \<Rightarrow> string \<Rightarrow> string" where
  \<comment> \<open>a line \<open>marks\<close>, a space and at least one more character becomes an element \<open>tag\<close>\<close>
  "heading_line marks tag l =
     (if prefix (marks @ '' '') l \<and> length marks + 1 < length l
      then ''<'' @ tag @ ''>'' @ drop (length marks + 1) l @ ''</'' @ tag @ ''>''
      else l)"

definition is_table_line :: "string \<Rightarrow> bool" where
  "is_table_line stripped =
     (CHR ''|'' \<in> set stripped \<and> prefix ''|'' stripped \<and> suffix ''|'' stripped)"

definition table_cells :: "string \<Rightarrow> string list" where
  \<comment> \<open>\<open>[c.strip() for c in stripped.split('|')[1:-1]]\<close>\<close>
  "table_cells stripped = map strip (butlast (tl (split_str ''|'' stripped)))"

definition sep_cell :: "string \<Rightarrow> bool" where
  \<comment> \<open>\<open>re.match(r'^[-:]+$', c)\<close>; without \<open>re.MULTILINE\<close> the \<open>$\<close> also matches before
      one final newline\<close>
  "sep_cell c =
     (let body = (if suffix ''\<newline>'' c then butlast c else c)
      in body \<noteq> [] \<and> list_all (\<lambda>x. x = CHR ''-'' \<or> x = CHR '':'') body)"

fun table_step :: "string list \<times> bool \<Rightarrow> string \<Rightarrow> string list \<times> bool" where
  \<comment> \<open>the body of the loop over the lines, on the state \<open>(result, in_table)\<close>\<close>
  "table_step (result, in_table) line =
     (let stripped = strip line in
      if is_table_line stripped then
        (let cells = table_cells stripped in
         if list_all sep_cell cells then (result, in_table)
         else if \<not> in_table then
           (result @ [''<table class=\"md-table\">'',
                      ''<tr>'' @ concat (map (\<lambda>c. ''<th>'' @ c @ ''</th>'') cells) @ ''</tr>''],
            True)
         else
           (result @ [''<tr>'' @ concat (map (\<lambda>c. ''<td>'' @ c @ ''</td>'') cells) @ ''</tr>''],
            in_table))
      else if in_table then (result @ [''</table>'', line], False)
      else (result @ [line], in_table))"

definition table_lines :: "string list \<Rightarrow> string list" where
  \<comment> \<open>the loop over \<open>lines\<close> and the closing of a table still open at the end\<close>
  "table_lines lines =
     (case foldl table_step ([], False) lines of
        (result, in_table) \<Rightarrow> if in_table then result @ [''</table>''] else result)"

definition md_tables :: "string \<Rightarrow> string" where
  "md_tables text = join ''\<newline>'' (table_lines (split_str ''\<newline>'' text))"

definition list_item_line :: "string \<Rightarrow> string" where
  \<comment> \<open>the pattern \<open>^- (.+)$\<close> on one line\<close>
  "list_item_line l =
     (if prefix ''- '' l \<and> 2 < length l then ''<li>'' @ drop 2 l @ ''</li>'' else l)"

definition li_item :: "string \<Rightarrow> (string \<times> string) option" where
  \<comment> \<open>one round of the group \<open><li>.*?</li>\n?\<close>: what it matched and the text after it\<close>
  "li_item s =
     (if prefix ''<li>'' s then
        (case find_line_lit ''</li>'' (drop 4 s) of
           None \<Rightarrow> None
         | Some (b, a) \<Rightarrow>
             if prefix ''\<newline>'' a then Some (''<li>'' @ b @ ''</li>'' @ ''\<newline>'', tl a)
             else Some (''<li>'' @ b @ ''</li>'', a))
      else None)"

function li_run :: "string \<Rightarrow> string \<times> string" where
  \<comment> \<open>the greedy repetition of the group: all it matched and the text after it\<close>
  "li_run s =
     (case li_item s of
        None \<Rightarrow> ([], s)
      | Some (m, rest) \<Rightarrow>
          if length rest < length s then (case li_run rest of (ms, r) \<Rightarrow> (m @ ms, r))
          else (m, rest))"
  by pat_completeness auto
termination
  by (relation "measure length") auto

declare li_run.simps [simp del]

definition ul_match :: "string \<Rightarrow> (string \<times> string) option" where
  \<comment> \<open>the pattern \<open>(<li>.*?</li>\n?)+\<close>, wrapped in a list element\<close>
  "ul_match s =
     (case li_run s of
        (m, rest) \<Rightarrow> if m = [] then None else Some (''<ul>'' @ m @ ''</ul>'', rest))"

definition link_match :: "string \<Rightarrow> (string \<times> string) option" where
  \<comment> \<open>the pattern \<open>\[([^\]]+)\]\(([^)]+)\)\<close>\<close>
  "link_match s =
     (case s of
        [] \<Rightarrow> None
      | c # r \<Rightarrow>
          if c = CHR ''['' then
            (let label = takeWhile (\<lambda>x. x \<noteq> CHR '']'') r;
                 r1 = dropWhile (\<lambda>x. x \<noteq> CHR '']'') r
             in if label \<noteq> [] \<and> prefix ''](''  r1 then
                  (let url = takeWhile (\<lambda>x. x \<noteq> CHR '')'') (drop 2 r1);
                       r2 = dropWhile (\<lambda>x. x \<noteq> CHR '')'') (drop 2 r1)
                   in if url \<noteq> [] \<and> r2 \<noteq> []
                      then Some (''<a href=\"'' @ url @ ''\" target=\"_blank\">'' @ label @ ''</a>'',
                                 tl r2)
                      else None)
                else None)
          else None)"

definition para_match :: "string \<Rightarrow> (string \<times> string) option" where
  \<comment> \<open>the pattern \<open>\n\n+\<close>\<close>
  "para_match s =
     (if prefix ''\<newline>\<newline>'' s
      then Some (''</p><p>'', dropWhile (\<lambda>x. x = CHR ''\<newline>'') s)
      else None)"

definition replace_match :: "string \<Rightarrow> string \<Rightarrow> string \<Rightarrow> (string \<times> string) option" where
  "replace_match old new s = (if prefix old s then Some (new, drop (length old) s) else None)"

definition py_replace :: "string \<Rightarrow> string \<Rightarrow> string \<Rightarrow> string" where
  \<comment> \<open>\<open>s.replace(old, new)\<close> for \<open>old\<close> not empty; also \<open>re.sub\<close> of a literal pattern\<close>
  "py_replace old new = re_sub_scan (replace_match old new)"

definition md_inline :: "string \<Rightarrow> string" where
  \<comment> \<open>the escaping and the three passes for code blocks, code spans and bold\<close>
  "md_inline text =
     re_sub_scan bold_match
       (re_sub_scan inline_code_match (re_sub_scan code_block_match (html_escape text)))"

definition md_headings :: "string \<Rightarrow> string" where
  "md_headings text =
     sub_lines (heading_line ''#'' ''h1'')
       (sub_lines (heading_line ''##'' ''h2'')
          (sub_lines (heading_line ''###'' ''h3'')
             (sub_lines (heading_line ''####'' ''h4'') text)))"

definition md_lists :: "string \<Rightarrow> string" where
  "md_lists text = re_sub_scan ul_match (sub_lines list_item_line text)"

definition md_paragraphs :: "string \<Rightarrow> string" where
  "md_paragraphs text =
     py_replace ''<p>---</p>'' ''<hr>''
       (py_replace ''<p></p>'' '''' (''<p>'' @ re_sub_scan para_match text @ ''</p>''))"

definition md_to_html :: "string \<Rightarrow> string" where
  "md_to_html text =
     md_paragraphs
       (re_sub_scan link_match (md_lists (md_tables (md_headings (md_inline text)))))"

section \<open>The turn of a record whose content is a string\<close>




section \<open>The visibility rule as the specification words it\<close>

text \<open>
  \<open>spec_visible\<close> follows the specification: a user turn needs a non-empty text or an image,
  an assistant turn a non-empty text, a tool invocation or an image. \<open>built_turns\<close> lists, in
  file order, the turn built for each record of type \<open>user\<close> or \<open>assistant\<close>.
\<close>

definition spec_visible :: "turn \<Rightarrow> bool" where
  "spec_visible t =
     ((role t = JStr ''user'' \<and> (list_ex (\<lambda>x. x \<noteq> []) (texts t) \<or> images t \<noteq> [])) \<or>
      (role t = JStr ''assistant'' \<and>
         (list_ex (\<lambda>x. x \<noteq> []) (texts t) \<or> tool_uses t \<noteq> [] \<or> images t \<noteq> [])))"

definition turn_of :: "result_maps \<Rightarrow> json \<Rightarrow> turn option" where
  "turn_of maps d =
     (case py_index d ''type'' of
        Inl e \<Rightarrow> None
      | Inr ty \<Rightarrow>
          if ty = JStr ''user'' \<or> ty = JStr ''assistant'' then
            (case build_turn maps ty d of Inl e \<Rightarrow> None | Inr t \<Rightarrow> Some t)
          else None)"

definition built_turns :: "result_maps \<Rightarrow> json list \<Rightarrow> turn list" where
  "built_turns maps all_records = List.map_filter (turn_of maps) all_records"

section \<open>Correlation as the specification words it\<close>

text \<open>
  \<open>record_blocks\<close> lists the blocks the first pass scans in a record: the block list of a
  record of type \<open>user\<close>. \<open>results_for k\<close> lists, in file order, the contents of the scanned
  \<open>tool_result\<close> blocks whose correlation id is not empty and is the key \<open>k\<close>.
  \<open>spec_result_text\<close> is the result text of one such content: a string trimmed, or the
  newline-joined texts of its text sub-blocks trimmed. \<open>spec_result_images\<close> lists the images
  of its image sub-blocks. \<open>last_of f cs dflt\<close> is \<open>f\<close> of the last item, or \<open>dflt\<close> when
  there is none. \<open>correlated\<close> says that a tool invocation holds what both result maps give
  for its id.
\<close>

definition record_blocks :: "json \<Rightarrow> json list" where
  "record_blocks d =
     (case d of
        JObj dkv \<Rightarrow>
          if map_of dkv ''type'' = Some (JStr ''user'') then
            (case dict_get dkv ''message'' (JObj []) of
               JObj m \<Rightarrow> (case dict_get m ''content'' (JArr []) of JArr bs \<Rightarrow> bs | _ \<Rightarrow> [])
             | _ \<Rightarrow> [])
          else []
      | _ \<Rightarrow> [])"

definition result_for :: "json \<Rightarrow> json \<Rightarrow> json option" where
  "result_for k b =
     (case b of
        JObj kvs \<Rightarrow>
          if dict_get kvs ''type'' JNull = JStr ''tool_result'' \<and>
             truthy (dict_get kvs ''tool_use_id'' (JStr '''')) \<and>
             hash_key (dict_get kvs ''tool_use_id'' (JStr '''')) = Inr k
          then Some (dict_get kvs ''content'' (JStr ''''))
          else None
      | _ \<Rightarrow> None)"

definition results_for :: "json \<Rightarrow> json list \<Rightarrow> json list" where
  "results_for k all_records =
     List.map_filter (result_for k) (concat (map record_blocks all_records))"

definition sub_text :: "json \<Rightarrow> string option" where
  "sub_text rc =
     (case rc of
        JObj kvs \<Rightarrow>
          if dict_get kvs ''type'' JNull = JStr ''text'' then
            (case dict_get kvs ''text'' (JStr '''') of JStr t \<Rightarrow> Some t | _ \<Rightarrow> None)
          else None
      | _ \<Rightarrow> None)"

definition sub_image :: "json \<Rightarrow> data_uri option" where
  "sub_image rc =
     (case rc of
        JObj kvs \<Rightarrow>
          if dict_get kvs ''type'' JNull \<noteq> JStr ''text'' \<and>
             dict_get kvs ''type'' JNull = JStr ''image'' then
            (case dict_get kvs ''source'' (JObj []) of
               JObj src \<Rightarrow>
                 if dict_get src ''type'' JNull = JStr ''base64'' then Some (image_uri src)
                 else None
             | _ \<Rightarrow> None)
          else None
      | _ \<Rightarrow> None)"

definition spec_result_text :: "json \<Rightarrow> string" where
  "spec_result_text content =
     (case content of
        JStr s \<Rightarrow> strip s
      | JArr rcs \<Rightarrow> strip (join ''\<newline>'' (List.map_filter sub_text rcs))
      | _ \<Rightarrow> [])"

definition spec_result_images :: "json \<Rightarrow> data_uri list" where
  "spec_result_images content =
     (case content of JArr rcs \<Rightarrow> List.map_filter sub_image rcs | _ \<Rightarrow> [])"

definition last_of :: "('a \<Rightarrow> 'b) \<Rightarrow> 'a list \<Rightarrow> 'b option \<Rightarrow> 'b option" where
  "last_of f cs dflt = (case cs of [] \<Rightarrow> dflt | _ \<Rightarrow> Some (f (last cs)))"

definition text_after :: "json \<Rightarrow> json list \<Rightarrow> string option \<Rightarrow> string option" where
  "text_after k bs dflt = last_of spec_result_text (List.map_filter (result_for k) bs) dflt"

definition images_after :: "json \<Rightarrow> json list \<Rightarrow> data_uri list option \<Rightarrow> data_uri list option" where
  "images_after k bs dflt =
     last_of spec_result_images
       (filter (\<lambda>c. spec_result_images c \<noteq> []) (List.map_filter (result_for k) bs)) dflt"

definition correlated :: "result_maps \<Rightarrow> tool_entry \<Rightarrow> bool" where
  "correlated maps e =
     (case hash_key (tool_id e) of
        Inl err \<Rightarrow> False
      | Inr k \<Rightarrow> tool_result e = lookup_result maps k \<and> result_images e = lookup_images maps k)"

subsection \<open>Small logs for the examples\<close>

definition user_results :: "json list \<Rightarrow> json" where
  "user_results blocks =
     JObj [(''type'', JStr ''user''),
           (''message'', JObj [(''role'', JStr ''user''), (''content'', JArr blocks)])]"

definition tool_result_block :: "json \<Rightarrow> json \<Rightarrow> json" where
  "tool_result_block tuid content =
     JObj [(''type'', JStr ''tool_result''), (''tool_use_id'', tuid), (''content'', content)]"

definition assistant_tool_use :: "json \<Rightarrow> json" where
  "assistant_tool_use tuid =
     JObj [(''type'', JStr ''assistant''),
           (''message'', JObj [(''role'', JStr ''assistant''),
              (''content'', JArr [JObj [(''type'', JStr ''tool_use''), (''id'', tuid),
                                       (''name'', JStr ''Bash''), (''input'', JObj [])]])])]"

definition invocation :: "json \<Rightarrow> string \<Rightarrow> turn" where
  "invocation tuid r =
     \<lparr>role = JStr ''assistant'', timestamp = JStr '''', texts = [],
      tool_uses = [\<lparr>tool_name = JStr ''Bash'', tool_input = JObj [], tool_id = tuid,
                     tool_result = r, result_images = []\<rparr>],
      images = []\<rparr>"

section \<open>The annotation markers\<close>




section \<open>Well-formed records\<close>

text \<open>
  The shape of a record on which neither pass of \<open>parse_messages\<close> raises: an object with a
  \<open>type\<close> key; for the types \<open>user\<close> and \<open>assistant\<close> the message is an object (or is
  absent) and its content is a string, an object or a list of blocks; in a block, a text is a
  string, an image source is an object and a correlation id is neither a list nor an object.
\<close>

definition is_str :: "json \<Rightarrow> bool" where
  "is_str x = (case x of JStr s \<Rightarrow> True | _ \<Rightarrow> False)"

definition is_obj :: "json \<Rightarrow> bool" where
  "is_obj x = (case x of JObj kvs \<Rightarrow> True | _ \<Rightarrow> False)"

definition hashable :: "json \<Rightarrow> bool" where
  "hashable x = (case x of JArr xs \<Rightarrow> False | JObj kvs \<Rightarrow> False | _ \<Rightarrow> True)"

definition wf_rc :: "json \<Rightarrow> bool" where
  "wf_rc rc =
     (case rc of
        JObj kvs \<Rightarrow>
          (if dict_get kvs ''type'' JNull = JStr ''text'' then
             is_str (dict_get kvs ''text'' (JStr ''''))
           else if dict_get kvs ''type'' JNull = JStr ''image'' then
             is_obj (dict_get kvs ''source'' (JObj []))
           else True)
      | _ \<Rightarrow> True)"

definition wf_content :: "json \<Rightarrow> bool" where
  "wf_content c = (case c of JArr rcs \<Rightarrow> list_all wf_rc rcs | _ \<Rightarrow> True)"

definition wf_block :: "json \<Rightarrow> bool" where
  "wf_block b =
     (case b of
        JObj kvs \<Rightarrow>
          (if dict_get kvs ''type'' JNull = JStr ''tool_result'' then
             hashable (dict_get kvs ''tool_use_id'' (JStr '''')) \<and>
             wf_content (dict_get kvs ''content'' (JStr ''''))
           else if dict_get kvs ''type'' JNull = JStr ''text'' then
             is_str (dict_get kvs ''text'' (JStr ''''))
           else if dict_get kvs ''type'' JNull = JStr ''tool_use'' then
             hashable (dict_get kvs ''id'' (JStr ''''))
           else if dict_get kvs ''type'' JNull = JStr ''image'' then
             is_obj (dict_get kvs ''source'' (JObj []))
           else True)
      | _ \<Rightarrow> True)"

definition wf_blocks :: "json \<Rightarrow> bool" where
  "wf_blocks content =
     (case content of
        JStr s \<Rightarrow> True
      | JArr bs \<Rightarrow> list_all wf_block bs
      | JObj kvs \<Rightarrow> True
      | _ \<Rightarrow> False)"

definition wf_message :: "json \<Rightarrow> bool" where
  "wf_message msg =
     (case msg of JObj m \<Rightarrow> wf_blocks (dict_get m ''content'' (JArr [])) | _ \<Rightarrow> False)"

definition wf_record :: "json \<Rightarrow> bool" where
  "wf_record d =
     (case d of
        JObj dkv \<Rightarrow>
          (case map_of dkv ''type'' of
             None \<Rightarrow> False
           | Some ty \<Rightarrow>
               if ty = JStr ''user'' \<or> ty = JStr ''assistant''
               then wf_message (dict_get dkv ''message'' (JObj []))
               else True)
      | _ \<Rightarrow> False)"

section \<open>Properties of the turn reconstruction\<close>

subsection \<open>Records whose content is a string\<close>












subsection \<open>No exception on well-formed records\<close>

lemma is_strE: "is_str x \<Longrightarrow> (\<And>s. x = JStr s \<Longrightarrow> P) \<Longrightarrow> P"
  by (cases x) (simp_all add: is_str_def)

lemma is_objE: "is_obj x \<Longrightarrow> (\<And>kvs. x = JObj kvs \<Longrightarrow> P) \<Longrightarrow> P"
  by (cases x) (simp_all add: is_obj_def)

lemma foldE_total:
  assumes "\<And>s x. x \<in> set xs \<Longrightarrow> \<not> isl (f s x)"
  shows "\<not> isl (foldE f xs s)"
  using assms
proof (induction xs arbitrary: s)
  case Nil
  show ?case by simp
next
  case (Cons x xs)
  from Cons.prems[of x s] obtain s1 where s1: "f s x = Inr s1"
    by (cases "f s x") auto
  from Cons.IH[of s1] Cons.prems have "\<not> isl (foldE f xs s1)" by auto
  with s1 show ?case by simp
qed

lemma not_isl_iff: "\<not> isl x \<longleftrightarrow> (\<exists>y. x = Inr y)"
  by (cases x) auto

lemma collect_rc_total:
  assumes "wf_rc rc"
  shows "\<not> isl (collect_rc s rc)"
proof (cases rc)
  case (JObj kvs)
  obtain rt im where s: "s = (rt, im)" by (cases s)
  consider (tx) "dict_get kvs ''type'' JNull = JStr ''text''"
    | (im) "dict_get kvs ''type'' JNull = JStr ''image''"
    | (other) "dict_get kvs ''type'' JNull \<noteq> JStr ''text'' \<and>
               dict_get kvs ''type'' JNull \<noteq> JStr ''image''"
    by blast
  then show ?thesis
  proof cases
    case tx
    with assms JObj have "is_str (dict_get kvs ''text'' (JStr ''''))" by (simp add: wf_rc_def)
    then show ?thesis using tx JObj s by (elim is_strE) simp
  next
    case im
    with assms JObj have "is_obj (dict_get kvs ''source'' (JObj []))" by (simp add: wf_rc_def)
    then show ?thesis using im JObj s by (elim is_objE) simp
  next
    case other
    then show ?thesis using JObj s by simp
  qed
qed (cases s; simp)+

lemma block_result_total: "wf_content c \<Longrightarrow> \<not> isl (block_result c)"
  unfolding block_result_def wf_content_def
  by (cases c) (simp_all add: list_all_iff foldE_total collect_rc_total)

lemma hashable_hash_key: "hashable x \<Longrightarrow> \<not> isl (hash_key x)"
  by (cases x) (auto simp: hashable_def hash_key_def)

lemma collect_block_total: "wf_block b \<Longrightarrow> \<not> isl (collect_block maps b)"
proof (cases b)
  case (JObj kvs)
  assume wf: "wf_block b"
  show ?thesis
  proof (cases "dict_get kvs ''type'' JNull = JStr ''tool_result''")
    case True
    with wf JObj have h: "hashable (dict_get kvs ''tool_use_id'' (JStr ''''))"
      and c: "wf_content (dict_get kvs ''content'' (JStr ''''))"
      by (auto simp: wf_block_def)
    from block_result_total[OF c] obtain r where
      r: "block_result (dict_get kvs ''content'' (JStr '''')) = Inr r"
      by (auto simp: not_isl_iff)
    from hashable_hash_key[OF h] obtain k where
      k: "hash_key (dict_get kvs ''tool_use_id'' (JStr '''')) = Inr k"
      by (auto simp: not_isl_iff)
    show ?thesis using JObj True r k
      by (cases r) (simp add: collect_block_def Let_def)
  next
    case False
    then show ?thesis using JObj by (simp add: collect_block_def)
  qed
qed (simp_all add: collect_block_def)

lemma add_text_total: "\<not> isl (add_text t (JStr s))"
  by (simp add: add_text_def marker_in_def Let_def)

lemma build_block_total: "wf_block b \<Longrightarrow> \<not> isl (build_block maps t b)"
proof (cases b)
  case (JObj kvs)
  assume wf: "wf_block b"
  have deflt: "dict_get kvs ''type'' JNull = JStr x \<longleftrightarrow> dict_get kvs ''type'' (JStr '''') = JStr x"
    if "x \<noteq> []" for x
    using that by (auto simp: dict_get_def split: option.splits)
  consider (textb) "dict_get kvs ''type'' (JStr '''') = JStr ''text''"
    | (tool) "dict_get kvs ''type'' (JStr '''') = JStr ''tool_use''"
    | (img) "dict_get kvs ''type'' (JStr '''') = JStr ''image''"
    | (other) "dict_get kvs ''type'' (JStr '''') \<noteq> JStr ''text'' \<and>
        dict_get kvs ''type'' (JStr '''') \<noteq> JStr ''tool_use'' \<and>
        dict_get kvs ''type'' (JStr '''') \<noteq> JStr ''image''"
    by blast
  then show ?thesis
  proof cases
    case textb
    then have "dict_get kvs ''type'' JNull = JStr ''text''" using deflt[of "''text''"] by simp
    with wf JObj obtain s where "dict_get kvs ''text'' (JStr '''') = JStr s"
      by (auto simp: wf_block_def elim: is_strE)
    with textb JObj add_text_total[of t s] show ?thesis by (simp add: build_block_def)
  next
    case tool
    then have "dict_get kvs ''type'' JNull = JStr ''tool_use''"
      using deflt[of "''tool_use''"] by simp
    with wf JObj have "hashable (dict_get kvs ''id'' (JStr ''''))"
      by (auto simp: wf_block_def)
    from hashable_hash_key[OF this] obtain k where
      "hash_key (dict_get kvs ''id'' (JStr '''')) = Inr k" by (auto simp: not_isl_iff)
    with tool JObj show ?thesis by (simp add: build_block_def)
  next
    case img
    then have "dict_get kvs ''type'' JNull = JStr ''image''" using deflt[of "''image''"] by simp
    with wf JObj obtain src where "dict_get kvs ''source'' (JObj []) = JObj src"
      by (auto simp: wf_block_def elim: is_objE)
    with img JObj show ?thesis by (simp add: build_block_def)
  next
    case other
    with JObj show ?thesis by (simp add: build_block_def)
  qed
qed (simp_all add: build_block_def)

lemma foldE_keys_collect: "\<not> isl (foldE collect_block (map (\<lambda>kv. JStr (fst kv)) kvs) maps)"
  by (rule foldE_total) (auto simp: collect_block_def)

lemma foldE_keys_build: "\<not> isl (foldE (build_block maps) (map (\<lambda>kv. JStr (fst kv)) kvs) t)"
  by (rule foldE_total) (auto simp: build_block_def)

lemma foldE_blocks_collect:
  "list_all wf_block bs \<Longrightarrow> \<not> isl (foldE collect_block bs maps)"
  by (rule foldE_total) (simp add: list_all_iff collect_block_total)

lemma foldE_blocks_build:
  "list_all wf_block bs \<Longrightarrow> \<not> isl (foldE (build_block maps) bs t)"
  by (rule foldE_total) (simp add: list_all_iff build_block_total)

lemma collect_record_total:
  assumes "wf_record d"
  shows "\<not> isl (collect_record maps d)"
proof -
  from assms obtain dkv ty where d: "d = JObj dkv" and ty: "map_of dkv ''type'' = Some ty"
    by (cases d; cases "map_of (case d of JObj kvs \<Rightarrow> kvs | _ \<Rightarrow> []) ''type''")
       (simp_all add: wf_record_def)
  show ?thesis
  proof (cases "ty = JStr ''user''")
    case False
    with d ty show ?thesis by (simp add: collect_record_def py_index_def)
  next
    case True
    with assms d ty have "wf_message (dict_get dkv ''message'' (JObj []))"
      by (simp add: wf_record_def)
    then obtain m where m: "dict_get dkv ''message'' (JObj []) = JObj m"
      and c: "wf_blocks (dict_get m ''content'' (JArr []))"
      by (cases "dict_get dkv ''message'' (JObj [])") (simp_all add: wf_message_def)
    have "\<not> isl (case dict_get m ''content'' (JArr []) of
                  JStr s \<Rightarrow> Inr maps
                | _ \<Rightarrow> (case py_iter (dict_get m ''content'' (JArr [])) of
                         Inl e \<Rightarrow> Inl e
                       | Inr blocks \<Rightarrow> foldE collect_block blocks maps))"
      using c foldE_keys_collect foldE_blocks_collect
      by (cases "dict_get m ''content'' (JArr [])") (simp_all add: py_iter_def wf_blocks_def)
    with d ty True m show ?thesis
      by (simp add: collect_record_def py_index_def py_get_def)
  qed
qed

lemma build_record_total:
  assumes "wf_record d"
  shows "\<not> isl (build_record maps ms d)"
proof -
  from assms obtain dkv ty where d: "d = JObj dkv" and ty: "map_of dkv ''type'' = Some ty"
    by (cases d; cases "map_of (case d of JObj kvs \<Rightarrow> kvs | _ \<Rightarrow> []) ''type''")
       (simp_all add: wf_record_def)
  show ?thesis
  proof (cases "ty = JStr ''user'' \<or> ty = JStr ''assistant''")
    case False
    with d ty show ?thesis by (simp add: build_record_def py_index_def)
  next
    case True
    with assms d ty have "wf_message (dict_get dkv ''message'' (JObj []))"
      by (simp add: wf_record_def)
    then obtain m where m: "dict_get dkv ''message'' (JObj []) = JObj m"
      and c: "wf_blocks (dict_get m ''content'' (JArr []))"
      by (cases "dict_get dkv ''message'' (JObj [])") (simp_all add: wf_message_def)
    have wt: "list_all wf_block [text_block s]" for s
      by (simp add: wf_block_def text_block_def dict_get_def is_str_def)
    have "\<not> isl (case py_iter (case dict_get m ''content'' (JArr []) of
                              JStr s \<Rightarrow> JArr [text_block s]
                            | _ \<Rightarrow> dict_get m ''content'' (JArr [])) of
                  Inl e \<Rightarrow> Inl e
                | Inr blocks \<Rightarrow> foldE (build_block maps) blocks t)" for t
      using c foldE_keys_build foldE_blocks_build foldE_blocks_build[OF wt]
      by (cases "dict_get m ''content'' (JArr [])")
         (simp_all add: py_iter_def wf_blocks_def del: foldE.simps)
    then have "\<not> isl (build_turn maps ty d)"
      using d m by (simp add: build_turn_def py_get_def)
    then obtain t' where "build_turn maps ty d = Inr t'" by (auto simp: not_isl_iff)
    with d ty True show ?thesis
      by (auto simp: build_record_def py_index_def)
  qed
qed

text \<open>
  C10, as the code has it. Both passes of \<open>parse_messages\<close> complete without raising on
  every list of well-formed records. The claim as written also covers a record without a
  \<open>type\<close> key and says it is skipped; the code reads \<open>d['type']\<close> in both passes, so such
  a record raises \<open>KeyError\<close>; the closed example after the witness shows it.
\<close>

theorem wf_records_parse:
  assumes "list_all wf_record all_records"
  shows "\<exists>turns. parse_messages all_records = Inr turns"
proof -
  have "\<not> isl (collect_results all_records)"
    unfolding collect_results_def
    using assms by (intro foldE_total collect_record_total) (simp add: list_all_iff)
  then obtain maps where maps: "collect_results all_records = Inr maps"
    by (auto simp: not_isl_iff)
  have "\<not> isl (foldE (build_record maps) all_records [])"
    using assms by (intro foldE_total build_record_total) (simp add: list_all_iff)
  with maps show ?thesis by (simp add: parse_messages_def not_isl_iff)
qed

theorem wf_records_parse_witness:
  "list_all wf_record
     [JObj [(''type'', JStr ''user''), (''message'', JObj [(''content'', JStr ''hi'')])],
      JObj [(''type'', JStr ''summary'')],
      JObj [(''type'', JStr ''assistant''),
            (''message'', JObj [(''content'',
               JArr [JObj [(''type'', JStr ''tool_use''), (''id'', JStr ''t1'')]])])]] \<and>
   (\<exists>turns. parse_messages
     [JObj [(''type'', JStr ''user''), (''message'', JObj [(''content'', JStr ''hi'')])],
      JObj [(''type'', JStr ''summary'')],
      JObj [(''type'', JStr ''assistant''),
            (''message'', JObj [(''content'',
               JArr [JObj [(''type'', JStr ''tool_use''), (''id'', JStr ''t1'')]])])]] = Inr turns)"
proof -
  have wf: "list_all wf_record
     [JObj [(''type'', JStr ''user''), (''message'', JObj [(''content'', JStr ''hi'')])],
      JObj [(''type'', JStr ''summary'')],
      JObj [(''type'', JStr ''assistant''),
            (''message'', JObj [(''content'',
               JArr [JObj [(''type'', JStr ''tool_use''), (''id'', JStr ''t1'')]])])]]"
    by code_simp
  from wf_records_parse[OF wf] wf show ?thesis by simp
qed

theorem missing_type_raises:
  "parse_messages
     [JObj [(''type'', JStr ''user''), (''message'', JObj [(''content'', JStr ''hi'')])],
      JObj [(''message'', JObj [(''content'', JStr ''no type'')])]] = Inl KeyError"
  by code_simp

subsection \<open>The kept turns are the visible ones\<close>

lemma foldE_invariant:
  assumes "foldE f xs s = Inr s'" and "P s"
    and "\<And>a x b. P a \<Longrightarrow> x \<in> set xs \<Longrightarrow> f a x = Inr b \<Longrightarrow> P b"
  shows "P s'"
  using assms
proof (induction xs arbitrary: s)
  case Nil
  then show ?case by simp
next
  case (Cons x xs)
  from Cons.prems(1) obtain s1 where s1: "f s x = Inr s1" and r: "foldE f xs s1 = Inr s'"
    by (cases "f s x") simp_all
  have p1: "P s1" by (rule Cons.prems(3)[OF Cons.prems(2) _ s1]) simp
  show ?case
  proof (rule Cons.IH[OF r p1])
    fix a y b
    assume "P a" "y \<in> set xs" "f a y = Inr b"
    then show "P b" by (intro Cons.prems(3)[of a y b]) simp_all
  qed
qed

lemma strip_Nil: "strip [] = []"
  by (simp add: strip_def lstrip_def rstrip_def)

lemma add_text_texts:
  assumes "add_text t x = Inr t'" and "[] \<notin> set (texts t)"
  shows "[] \<notin> set (texts t')"
proof -
  from assms(1) obtain s where x: "x = JStr s"
    by (cases x) (auto simp: add_text_def marker_in_def split: if_splits)
  show ?thesis
    using assms unfolding x add_text_def marker_in_def Let_def
    by (auto split: if_splits simp: strip_Nil)
qed

lemma build_block_texts:
  assumes "build_block maps t b = Inr t'" and "[] \<notin> set (texts t)"
  shows "[] \<notin> set (texts t')"
proof (cases b)
  case (JObj kvs)
  consider (tx) "dict_get kvs ''type'' (JStr '''') = JStr ''text''"
    | (tool) "dict_get kvs ''type'' (JStr '''') = JStr ''tool_use''"
    | (img) "dict_get kvs ''type'' (JStr '''') = JStr ''image''"
    | (other) "dict_get kvs ''type'' (JStr '''') \<noteq> JStr ''text'' \<and>
        dict_get kvs ''type'' (JStr '''') \<noteq> JStr ''tool_use'' \<and>
        dict_get kvs ''type'' (JStr '''') \<noteq> JStr ''image''"
    by blast
  then show ?thesis
  proof cases
    case tx
    with assms JObj show ?thesis by (auto simp: build_block_def dest: add_text_texts)
  next
    case tool
    with assms JObj show ?thesis
      by (auto simp: build_block_def Let_def split: sum.splits)
  next
    case img
    with assms JObj show ?thesis
      by (cases "dict_get kvs ''source'' (JObj [])")
         (auto simp: build_block_def Let_def split: if_splits)
  next
    case other
    with assms JObj show ?thesis by (auto simp: build_block_def)
  qed
qed (use assms in \<open>auto simp: build_block_def\<close>)

lemma build_turn_texts:
  assumes "build_turn maps ty d = Inr t"
  shows "[] \<notin> set (texts t)"
proof -
  from assms obtain blocks r ts where
    f: "foldE (build_block maps) blocks
          \<lparr>role = r, timestamp = ts, texts = [], tool_uses = [], images = []\<rparr> = Inr t"
    by (auto simp: build_turn_def split: sum.splits)
  show ?thesis
    by (rule foldE_invariant[OF f, where P = "\<lambda>t. [] \<notin> set (texts t)"])
       (auto dest: build_block_texts)
qed

lemma visible_spec: "[] \<notin> set (texts t) \<Longrightarrow> visible t = spec_visible t"
proof -
  assume "[] \<notin> set (texts t)"
  then have "list_ex (\<lambda>x. x \<noteq> []) (texts t) \<longleftrightarrow> texts t \<noteq> []"
    by (cases "texts t") (auto simp: list_ex_iff)
  then show ?thesis by (auto simp: visible_def spec_visible_def)
qed

lemma turn_of_texts:
  assumes "turn_of maps d = Some t"
  shows "[] \<notin> set (texts t)"
proof -
  from assms obtain ty where "build_turn maps ty d = Inr t"
    unfolding turn_of_def
    by (cases "py_index d ''type''"; simp split: if_splits)
       (cases "build_turn maps (projr (py_index d ''type'')) d"; simp)
  then show ?thesis by (rule build_turn_texts)
qed

lemma build_record_turn_of:
  assumes "build_record maps acc d = Inr acc'"
  shows "acc' = acc @ filter visible (List.map_filter (turn_of maps) [d])"
proof (cases "py_index d ''type''")
  case (Inl e)
  with assms show ?thesis by (simp add: build_record_def)
next
  case (Inr ty)
  show ?thesis
  proof (cases "ty = JStr ''user'' \<or> ty = JStr ''assistant''")
    case False
    with assms Inr show ?thesis
      by (simp add: build_record_def turn_of_def List.map_filter_def)
  next
    case True
    show ?thesis
    proof (cases "build_turn maps ty d")
      case (Inl e)
      with assms Inr True show ?thesis by (auto simp: build_record_def)
    next
      case t: (Inr t)
      have "turn_of maps d = Some t" using Inr True t by (auto simp: turn_of_def)
      moreover have "acc' = (if visible t then acc @ [t] else acc)"
        using assms Inr True t by (auto simp: build_record_def)
      ultimately show ?thesis by (simp add: List.map_filter_def)
    qed
  qed
qed

lemma map_filter_Cons:
  "List.map_filter f (x # xs) = List.map_filter f [x] @ List.map_filter f xs"
  by (simp add: List.map_filter_def)

lemma foldE_build_record:
  "foldE (build_record maps) recs acc = Inr turns \<Longrightarrow>
   turns = acc @ filter visible (built_turns maps recs)"
proof (induction recs arbitrary: acc)
  case Nil
  then show ?case by (simp add: built_turns_def List.map_filter_def)
next
  case (Cons d recs)
  from Cons.prems obtain acc1 where a: "build_record maps acc d = Inr acc1"
    and r: "foldE (build_record maps) recs acc1 = Inr turns"
    by (cases "build_record maps acc d") auto
  from Cons.IH[OF r] build_record_turn_of[OF a] show ?case
    unfolding built_turns_def by (subst map_filter_Cons) simp
qed

lemma built_turns_texts: "t \<in> set (built_turns maps recs) \<Longrightarrow> [] \<notin> set (texts t)"
proof -
  assume "t \<in> set (built_turns maps recs)"
  then obtain d where "turn_of maps d = Some t"
    by (auto simp: built_turns_def List.map_filter_def)
  then show ?thesis by (rule turn_of_texts)
qed

text \<open>
  C3. When \<open>parse_messages\<close> returns, its result is the list of the turns built for the
  records of type \<open>user\<close> or \<open>assistant\<close>, in file order, with exactly those turns kept
  that satisfy the visibility rule of the specification. An assistant turn with one tool
  invocation, no text and no image satisfies the rule.
\<close>

theorem kept_iff_visible:
  assumes "parse_messages all_records = Inr turns"
  shows "(\<exists>maps. collect_results all_records = Inr maps \<and>
            turns = filter spec_visible (built_turns maps all_records)) \<and>
         spec_visible \<lparr>role = JStr ''assistant'', timestamp = ts, texts = [], tool_uses = [e],
                        images = []\<rparr>"
proof -
  from assms obtain maps where m: "collect_results all_records = Inr maps"
    and f: "foldE (build_record maps) all_records [] = Inr turns"
    by (cases "collect_results all_records") (simp_all add: parse_messages_def)
  have "filter visible (built_turns maps all_records) =
        filter spec_visible (built_turns maps all_records)"
    by (rule filter_cong[OF refl]) (simp add: visible_spec built_turns_texts)
  with foldE_build_record[OF f] m show ?thesis by (simp add: spec_visible_def)
qed

theorem kept_iff_visible_witness:
  "parse_messages
     [JObj [(''type'', JStr ''assistant''),
            (''message'', JObj [(''role'', JStr ''assistant''),
               (''content'', JArr [JObj [(''type'', JStr ''text''), (''text'', JStr '''')],
                  JObj [(''type'', JStr ''tool_use''), (''id'', JStr ''t1''),
                        (''name'', JStr ''Bash''), (''input'', JObj [])]])])],
      JObj [(''type'', JStr ''user''),
            (''message'', JObj [(''role'', JStr ''user''),
               (''content'', JArr [JObj [(''type'', JStr ''text''), (''text'', JStr '' '')]])])]] =
     Inr [\<lparr>role = JStr ''assistant'', timestamp = JStr '''', texts = [],
           tool_uses = [\<lparr>tool_name = JStr ''Bash'', tool_input = JObj [], tool_id = JStr ''t1'',
                          tool_result = '''', result_images = []\<rparr>],
           images = []\<rparr>] \<and>
   (\<exists>maps. collect_results
       [JObj [(''type'', JStr ''assistant''),
            (''message'', JObj [(''role'', JStr ''assistant''),
               (''content'', JArr [JObj [(''type'', JStr ''text''), (''text'', JStr '''')],
                  JObj [(''type'', JStr ''tool_use''), (''id'', JStr ''t1''),
                        (''name'', JStr ''Bash''), (''input'', JObj [])]])])],
        JObj [(''type'', JStr ''user''),
            (''message'', JObj [(''role'', JStr ''user''),
               (''content'', JArr [JObj [(''type'', JStr ''text''), (''text'', JStr '' '')]])])]] =
       Inr maps \<and>
     [\<lparr>role = JStr ''assistant'', timestamp = JStr '''', texts = [],
           tool_uses = [\<lparr>tool_name = JStr ''Bash'', tool_input = JObj [], tool_id = JStr ''t1'',
                          tool_result = '''', result_images = []\<rparr>],
           images = []\<rparr>] =
     filter spec_visible (built_turns maps
       [JObj [(''type'', JStr ''assistant''),
            (''message'', JObj [(''role'', JStr ''assistant''),
               (''content'', JArr [JObj [(''type'', JStr ''text''), (''text'', JStr '''')],
                  JObj [(''type'', JStr ''tool_use''), (''id'', JStr ''t1''),
                        (''name'', JStr ''Bash''), (''input'', JObj [])]])])],
        JObj [(''type'', JStr ''user''),
            (''message'', JObj [(''role'', JStr ''user''),
               (''content'', JArr [JObj [(''type'', JStr ''text''), (''text'', JStr '' '')]])])]]))"
proof -
  have p: "parse_messages
     [JObj [(''type'', JStr ''assistant''),
            (''message'', JObj [(''role'', JStr ''assistant''),
               (''content'', JArr [JObj [(''type'', JStr ''text''), (''text'', JStr '''')],
                  JObj [(''type'', JStr ''tool_use''), (''id'', JStr ''t1''),
                        (''name'', JStr ''Bash''), (''input'', JObj [])]])])],
      JObj [(''type'', JStr ''user''),
            (''message'', JObj [(''role'', JStr ''user''),
               (''content'', JArr [JObj [(''type'', JStr ''text''), (''text'', JStr '' '')]])])]] =
     Inr [\<lparr>role = JStr ''assistant'', timestamp = JStr '''', texts = [],
           tool_uses = [\<lparr>tool_name = JStr ''Bash'', tool_input = JObj [], tool_id = JStr ''t1'',
                          tool_result = '''', result_images = []\<rparr>],
           images = []\<rparr>]"
    by code_simp
  from kept_iff_visible[OF p, THEN conjunct1] p show ?thesis by (intro conjI)
qed


subsection \<open>What the first pass stores\<close>

lemma last_of_append: "last_of f (xs @ ys) dflt = last_of f ys (last_of f xs dflt)"
  by (cases ys; cases xs) (simp_all add: last_of_def)

lemma map_filter_append:
  "List.map_filter f (xs @ ys) = List.map_filter f xs @ List.map_filter f ys"
  by (simp add: List.map_filter_def)

lemma map_filter_Cons_app:
  "List.map_filter f (x # xs) = List.map_filter f [x] @ List.map_filter f xs"
  by (simp add: List.map_filter_def)

lemma rstrip_newline: "rstrip (s @ ''\<newline>'') = rstrip s"
  by (simp add: rstrip_def py_isspace_def)

lemma strip_newline: "strip (s @ ''\<newline>'') = strip s"
  by (simp add: strip_def rstrip_newline)

lemma concat_lines_join:
  "ts \<noteq> [] \<Longrightarrow> concat (map (\<lambda>t. t @ ''\<newline>'') ts) = join ''\<newline>'' ts @ ''\<newline>''"
  by (induction "''\<newline>''" ts rule: join.induct) simp_all

lemma strip_concat_lines:
  "strip (concat (map (\<lambda>t. t @ ''\<newline>'') ts)) = strip (join ''\<newline>'' ts)"
proof (cases "ts = []")
  case True
  then show ?thesis by simp
next
  case False
  then show ?thesis using strip_newline[of "join ''\<newline>'' ts"] by (simp add: concat_lines_join)
qed

lemma collect_rc_step:
  assumes "collect_rc (rt, im) rc = Inr (rt', im')"
  shows "rt' = rt @ concat (map (\<lambda>t. t @ ''\<newline>'') (List.map_filter sub_text [rc])) \<and>
         im' = im @ List.map_filter sub_image [rc]"
proof (cases rc)
  case (JObj kvs)
  consider (tx) "dict_get kvs ''type'' JNull = JStr ''text''"
    | (img) "dict_get kvs ''type'' JNull \<noteq> JStr ''text'' \<and>
             dict_get kvs ''type'' JNull = JStr ''image''"
    | (other) "dict_get kvs ''type'' JNull \<noteq> JStr ''text'' \<and>
               dict_get kvs ''type'' JNull \<noteq> JStr ''image''"
    by blast
  then show ?thesis
  proof cases
    case tx
    with assms JObj show ?thesis
      by (cases "dict_get kvs ''text'' (JStr '''')")
         (simp_all add: sub_text_def sub_image_def List.map_filter_def)
  next
    case img
    with assms JObj show ?thesis
      by (cases "dict_get kvs ''source'' (JObj [])")
         (simp_all add: sub_text_def sub_image_def List.map_filter_def split: if_splits)
  next
    case other
    with assms JObj show ?thesis
      by (simp add: sub_text_def sub_image_def List.map_filter_def)
  qed
qed (use assms in \<open>simp_all add: sub_text_def sub_image_def List.map_filter_def\<close>)

lemma foldE_collect_rc:
  "foldE collect_rc rcs (rt, im) = Inr (rt', im') \<Longrightarrow>
   rt' = rt @ concat (map (\<lambda>t. t @ ''\<newline>'') (List.map_filter sub_text rcs)) \<and>
   im' = im @ List.map_filter sub_image rcs"
proof (induction rcs arbitrary: rt im)
  case Nil
  then show ?case by (simp add: List.map_filter_def)
next
  case (Cons rc rcs)
  from Cons.prems obtain rt1 im1 where s: "collect_rc (rt, im) rc = Inr (rt1, im1)"
    and r: "foldE collect_rc rcs (rt1, im1) = Inr (rt', im')"
    by (cases "collect_rc (rt, im) rc") auto
  from collect_rc_step[OF s] Cons.IH[OF r] show ?case
    by (subst (1 2) map_filter_Cons_app) simp
qed

lemma block_result_spec:
  assumes "block_result c = Inr (rt, im)"
  shows "strip rt = spec_result_text c \<and> im = spec_result_images c"
proof (cases c)
  case (JArr rcs)
  with assms have "foldE collect_rc rcs ([], []) = Inr (rt, im)"
    by (simp add: block_result_def)
  from foldE_collect_rc[OF this] JArr show ?thesis
    by (simp add: spec_result_text_def spec_result_images_def strip_concat_lines)
qed (use assms in \<open>auto simp: block_result_def spec_result_text_def spec_result_images_def strip_def lstrip_def rstrip_def\<close>)


lemma text_after_append:
  "text_after k (xs @ ys) dflt = text_after k ys (text_after k xs dflt)"
  by (simp add: text_after_def map_filter_append last_of_append)

lemma images_after_append:
  "images_after k (xs @ ys) dflt = images_after k ys (images_after k xs dflt)"
  by (simp add: images_after_def map_filter_append last_of_append)

lemma after_Nil: "text_after k [] dflt = dflt" "images_after k [] dflt' = dflt'"
  by (simp_all add: text_after_def images_after_def last_of_def List.map_filter_def)

lemma after_no_result:
  assumes "result_for k b = None"
  shows "text_after k [b] dflt = dflt" "images_after k [b] dflt' = dflt'"
  using assms by (simp_all add: text_after_def images_after_def last_of_def List.map_filter_def)

lemma after_result:
  assumes "result_for k b = Some c"
  shows "text_after k [b] dflt = Some (spec_result_text c)"
    "images_after k [b] dflt' =
       (if spec_result_images c \<noteq> [] then Some (spec_result_images c) else dflt')"
  using assms by (simp_all add: text_after_def images_after_def last_of_def List.map_filter_def)

lemma collect_block_step:
  assumes "collect_block maps b = Inr maps'"
  shows "fst maps' k = text_after k [b] (fst maps k) \<and>
         snd maps' k = images_after k [b] (snd maps k)"
proof (cases b)
  case (JObj kvs)
  show ?thesis
  proof (cases "dict_get kvs ''type'' JNull = JStr ''tool_result''")
    case False
    with JObj have "result_for k b = None" by (simp add: result_for_def)
    moreover from False JObj assms have "maps' = maps" by (simp add: collect_block_def)
    ultimately show ?thesis by (simp add: after_no_result)
  next
    case True
    let ?tuid = "dict_get kvs ''tool_use_id'' (JStr '''')"
    let ?c = "dict_get kvs ''content'' (JStr '''')"
    from assms JObj True obtain rt im where br: "block_result ?c = Inr (rt, im)"
      by (cases "block_result ?c") (auto simp: collect_block_def Let_def)
    note sp = block_result_spec[OF br]
    show ?thesis
    proof (cases "truthy ?tuid")
      case False
      with JObj True have "result_for k b = None" by (simp add: result_for_def)
      moreover from False JObj True assms br have "maps' = maps"
        by (simp add: collect_block_def Let_def)
      ultimately show ?thesis by (simp add: after_no_result)
    next
      case tr: True
      from assms JObj True br tr obtain k0 where hk: "hash_key ?tuid = Inr k0"
        by (cases "hash_key ?tuid") (auto simp: collect_block_def Let_def)
      from assms JObj True br tr hk have m': "maps' =
          ((fst maps)(k0 \<mapsto> strip rt), if im \<noteq> [] then (snd maps)(k0 \<mapsto> im) else snd maps)"
        by (simp add: collect_block_def Let_def)
      show ?thesis
      proof (cases "k = k0")
        case True
        with JObj \<open>dict_get kvs ''type'' JNull = JStr ''tool_result''\<close> tr hk
        have "result_for k b = Some ?c" by (simp add: result_for_def)
        from after_result[OF this] m' sp True show ?thesis by simp
      next
        case False
        with JObj hk have "result_for k b = None" by (auto simp: result_for_def)
        from after_no_result[OF this] m' False show ?thesis by simp
      qed
    qed
  qed
next
  case JNull
  with assms have "maps' = maps" "result_for k b = None"
    by (simp_all add: collect_block_def result_for_def)
  then show ?thesis by (simp add: after_no_result)
next
  case (JBool x)
  with assms have "maps' = maps" "result_for k b = None"
    by (simp_all add: collect_block_def result_for_def)
  then show ?thesis by (simp add: after_no_result)
next
  case (JInt x)
  with assms have "maps' = maps" "result_for k b = None"
    by (simp_all add: collect_block_def result_for_def)
  then show ?thesis by (simp add: after_no_result)
next
  case (JFloat x)
  with assms have "maps' = maps" "result_for k b = None"
    by (simp_all add: collect_block_def result_for_def)
  then show ?thesis by (simp add: after_no_result)
next
  case (JStr x)
  with assms have "maps' = maps" "result_for k b = None"
    by (simp_all add: collect_block_def result_for_def)
  then show ?thesis by (simp add: after_no_result)
next
  case (JArr x)
  with assms have "maps' = maps" "result_for k b = None"
    by (simp_all add: collect_block_def result_for_def)
  then show ?thesis by (simp add: after_no_result)
qed

lemma foldE_collect_block:
  "foldE collect_block bs maps = Inr maps' \<Longrightarrow>
   fst maps' k = text_after k bs (fst maps k) \<and> snd maps' k = images_after k bs (snd maps k)"
proof (induction bs arbitrary: maps)
  case Nil
  then show ?case by (simp add: after_Nil)
next
  case (Cons b bs)
  from Cons.prems obtain m1 where s: "collect_block maps b = Inr m1"
    and r: "foldE collect_block bs m1 = Inr maps'"
    by (cases "collect_block maps b") auto
  from collect_block_step[OF s, of k] Cons.IH[OF r]
    text_after_append[of k "[b]" bs] images_after_append[of k "[b]" bs]
  show ?case by simp
qed

lemma foldE_collect_keys:
  "foldE collect_block (map (\<lambda>kv. JStr (fst kv)) kvs) maps = Inr maps"
  by (induction kvs) (simp_all add: collect_block_def)

lemma collect_record_step:
  assumes "collect_record maps d = Inr maps'"
  shows "fst maps' k = text_after k (record_blocks d) (fst maps k) \<and>
         snd maps' k = images_after k (record_blocks d) (snd maps k)"
proof -
  from assms obtain dkv ty where d: "d = JObj dkv" and ty: "map_of dkv ''type'' = Some ty"
    by (cases d; cases "map_of (case d of JObj kvs \<Rightarrow> kvs | _ \<Rightarrow> []) ''type''")
       (simp_all add: collect_record_def py_index_def)
  show ?thesis
  proof (cases "ty = JStr ''user''")
    case False
    with assms d ty have "maps' = maps" "record_blocks d = []"
      by (simp_all add: collect_record_def py_index_def record_blocks_def)
    then show ?thesis by (simp add: after_Nil)
  next
    case True
    from assms d ty True obtain m where m: "dict_get dkv ''message'' (JObj []) = JObj m"
      by (cases "dict_get dkv ''message'' (JObj [])")
         (simp_all add: collect_record_def py_index_def py_get_def)
    let ?c = "dict_get m ''content'' (JArr [])"
    have cr: "(case ?c of JStr s \<Rightarrow> Inr maps
               | _ \<Rightarrow> (case py_iter ?c of Inl e \<Rightarrow> Inl e
                        | Inr blocks \<Rightarrow> foldE collect_block blocks maps)) = Inr maps'"
      using assms d ty True m by (simp add: collect_record_def py_index_def py_get_def)
    have rb: "record_blocks d = (case ?c of JArr bs \<Rightarrow> bs | _ \<Rightarrow> [])"
      using d ty True m by (simp add: record_blocks_def)
    show ?thesis
    proof (cases ?c)
      case (JArr bs)
      with cr have "foldE collect_block bs maps = Inr maps'" by (simp add: py_iter_def)
      from foldE_collect_block[OF this] rb JArr show ?thesis by simp
    next
      case (JObj kvs)
      with cr have "maps' = maps" by (simp add: py_iter_def foldE_collect_keys)
      with rb JObj show ?thesis by (simp add: after_Nil)
    next
      case (JStr s)
      with cr rb show ?thesis by (simp add: after_Nil)
    qed (use cr in \<open>simp_all add: py_iter_def\<close>)
  qed
qed

lemma foldE_collect_record:
  "foldE collect_record recs maps = Inr maps' \<Longrightarrow>
   fst maps' k = text_after k (concat (map record_blocks recs)) (fst maps k) \<and>
   snd maps' k = images_after k (concat (map record_blocks recs)) (snd maps k)"
proof (induction recs arbitrary: maps)
  case Nil
  then show ?case by (simp add: after_Nil)
next
  case (Cons d recs)
  from Cons.prems obtain m1 where s: "collect_record maps d = Inr m1"
    and r: "foldE collect_record recs m1 = Inr maps'"
    by (cases "collect_record maps d") auto
  from collect_record_step[OF s, of k] Cons.IH[OF r]
    text_after_append[of k "record_blocks d" "concat (map record_blocks recs)"]
    images_after_append[of k "record_blocks d" "concat (map record_blocks recs)"]
  show ?case by simp
qed

lemma collect_results_spec:
  assumes "collect_results recs = Inr maps"
  shows "fst maps k = last_of spec_result_text (results_for k recs) None"
    and "snd maps k =
       last_of spec_result_images
         (filter (\<lambda>c. spec_result_images c \<noteq> []) (results_for k recs)) None"
  using foldE_collect_record[OF assms[unfolded collect_results_def], of k]
  by (simp_all add: text_after_def images_after_def results_for_def)

subsection \<open>What a tool invocation receives\<close>

lemma add_text_tool_uses: "add_text t x = Inr t' \<Longrightarrow> tool_uses t' = tool_uses t"
  by (cases x) (auto simp: add_text_def marker_in_def Let_def split: if_splits)

lemma build_block_correlated:
  assumes "build_block maps t b = Inr t'" and "list_all (correlated maps) (tool_uses t)"
  shows "list_all (correlated maps) (tool_uses t')"
proof (cases b)
  case (JObj kvs)
  consider (tx) "dict_get kvs ''type'' (JStr '''') = JStr ''text''"
    | (tool) "dict_get kvs ''type'' (JStr '''') = JStr ''tool_use''"
    | (img) "dict_get kvs ''type'' (JStr '''') = JStr ''image''"
    | (other) "dict_get kvs ''type'' (JStr '''') \<noteq> JStr ''text'' \<and>
        dict_get kvs ''type'' (JStr '''') \<noteq> JStr ''tool_use'' \<and>
        dict_get kvs ''type'' (JStr '''') \<noteq> JStr ''image''"
    by blast
  then show ?thesis
  proof cases
    case tx
    with assms JObj have "tool_uses t' = tool_uses t"
      by (auto simp: build_block_def dest: add_text_tool_uses)
    with assms(2) show ?thesis by simp
  next
    case tool
    let ?tuid = "dict_get kvs ''id'' (JStr '''')"
    from assms(1) JObj tool obtain k where hk: "hash_key ?tuid = Inr k"
      by (cases "hash_key ?tuid") (auto simp: build_block_def Let_def)
    from assms(1) JObj tool hk have "tool_uses t' = tool_uses t @
        [\<lparr>tool_name = dict_get kvs ''name'' (JStr ''unknown''),
          tool_input = dict_get kvs ''input'' (JObj []),
          tool_id = ?tuid,
          tool_result = lookup_result maps k,
          result_images = lookup_images maps k\<rparr>]"
      by (auto simp: build_block_def Let_def)
    with assms(2) hk show ?thesis by (simp add: correlated_def)
  next
    case img
    with assms JObj have "tool_uses t' = tool_uses t"
      by (cases "dict_get kvs ''source'' (JObj [])")
         (auto simp: build_block_def Let_def split: if_splits)
    with assms(2) show ?thesis by simp
  next
    case other
    with assms JObj show ?thesis by (auto simp: build_block_def)
  qed
qed (use assms in \<open>auto simp: build_block_def\<close>)

lemma build_turn_correlated:
  assumes "build_turn maps ty d = Inr t"
  shows "list_all (correlated maps) (tool_uses t)"
proof -
  from assms obtain blocks r ts where
    f: "foldE (build_block maps) blocks
          \<lparr>role = r, timestamp = ts, texts = [], tool_uses = [], images = []\<rparr> = Inr t"
    by (auto simp: build_turn_def split: sum.splits)
  show ?thesis
    by (rule foldE_invariant[OF f, where P = "\<lambda>t. list_all (correlated maps) (tool_uses t)"])
       (simp_all add: build_block_correlated)
qed

lemma built_turns_correlated:
  assumes "t \<in> set (built_turns maps recs)"
  shows "list_all (correlated maps) (tool_uses t)"
proof -
  from assms obtain d where "turn_of maps d = Some t"
    by (auto simp: built_turns_def List.map_filter_def)
  then obtain ty where "build_turn maps ty d = Inr t"
    unfolding turn_of_def
    by (cases "py_index d ''type''"; simp split: if_splits)
       (cases "build_turn maps (projr (py_index d ''type'')) d"; simp)
  then show ?thesis by (rule build_turn_correlated)
qed

lemma parse_messages_correlated:
  assumes "parse_messages all_records = Inr turns" and "t \<in> set turns"
    and "e \<in> set (tool_uses t)"
  shows "\<exists>maps. collect_results all_records = Inr maps \<and> correlated maps e"
proof -
  from assms(1) obtain maps where m: "collect_results all_records = Inr maps"
    and f: "foldE (build_record maps) all_records [] = Inr turns"
    by (cases "collect_results all_records") (simp_all add: parse_messages_def)
  from foldE_build_record[OF f] assms(2) have "t \<in> set (built_turns maps all_records)"
    by simp
  from built_turns_correlated[OF this] assms(3) have "correlated maps e"
    by (simp add: list_all_iff)
  with m show ?thesis by blast
qed

text \<open>
  C1, as the code has it. Let \<open>parse_messages\<close> return, and let a tool invocation of the
  output have an id with key \<open>k\<close> for which the first pass scanned at least one
  \<open>tool_result\<close> block: a block with that id, not empty, in the block list of a record of
  type \<open>user\<close>. Then the result text of the invocation is the result text of the last such
  block in file order: its string content trimmed, or the newline-joined texts of its text
  sub-blocks, in file order, trimmed. The claim as written holds for every \<open>tool_result\<close>
  block of the log; the closed example after the witness shows three logs where the
  invocation does not get the text of a block with its id: the block is in a record of type
  \<open>assistant\<close>, the id is the empty string, and an earlier of two blocks with the same id.
\<close>

theorem tool_result_is_last_result_text:
  assumes "parse_messages all_records = Inr turns"
    and "t \<in> set turns"
    and "e \<in> set (tool_uses t)"
    and "hash_key (tool_id e) = Inr k"
    and "results_for k all_records \<noteq> []"
  shows "tool_result e = spec_result_text (last (results_for k all_records))"
proof -
  from parse_messages_correlated[OF assms(1-3)] obtain maps
    where m: "collect_results all_records = Inr maps" and c: "correlated maps e" by blast
  from c assms(4) have "tool_result e = lookup_result maps k" by (simp add: correlated_def)
  moreover from collect_results_spec(1)[OF m, of k] assms(5)
  have "fst maps k = Some (spec_result_text (last (results_for k all_records)))"
    by (cases "results_for k all_records") (simp_all add: last_of_def)
  ultimately show ?thesis by (simp add: lookup_result_def)
qed


theorem tool_result_is_last_result_text_witness:
  "parse_messages
     [assistant_tool_use (JStr ''t1''),
      user_results [tool_result_block (JStr ''t1'')
        (JArr [JObj [(''type'', JStr ''text''), (''text'', JStr ''a'')],
               JObj [(''type'', JStr ''text''), (''text'', JStr ''b '')]])]] =
     Inr [invocation (JStr ''t1'') ''a\<newline>b''] \<and>
   spec_result_text (last (results_for (JStr ''t1'')
     [assistant_tool_use (JStr ''t1''),
      user_results [tool_result_block (JStr ''t1'')
        (JArr [JObj [(''type'', JStr ''text''), (''text'', JStr ''a'')],
               JObj [(''type'', JStr ''text''), (''text'', JStr ''b '')]])]])) = ''a\<newline>b''"
proof -
  let ?log = "[assistant_tool_use (JStr ''t1''),
      user_results [tool_result_block (JStr ''t1'')
        (JArr [JObj [(''type'', JStr ''text''), (''text'', JStr ''a'')],
               JObj [(''type'', JStr ''text''), (''text'', JStr ''b '')]])]]"
  have p: "parse_messages ?log = Inr [invocation (JStr ''t1'') ''a\<newline>b'']"
    by code_simp
  have r: "results_for (JStr ''t1'') ?log \<noteq> []"
    by code_simp
  let ?e = "\<lparr>tool_name = JStr ''Bash'', tool_input = JObj [], tool_id = JStr ''t1'',
             tool_result = ''a\<newline>b'', result_images = []\<rparr>"
  have h: "hash_key (tool_id ?e) = Inr (JStr ''t1'')"
    by (simp add: hash_key_def)
  have t: "invocation (JStr ''t1'') ''a\<newline>b'' \<in> set [invocation (JStr ''t1'') ''a\<newline>b'']"
    by simp
  have e: "?e \<in> set (tool_uses (invocation (JStr ''t1'') ''a\<newline>b''))"
    by (simp add: invocation_def)
  have "tool_result ?e = spec_result_text (last (results_for (JStr ''t1'') ?log))"
    by (rule tool_result_is_last_result_text[OF p t e h r])
  then have "spec_result_text (last (results_for (JStr ''t1'') ?log)) = ''a\<newline>b''"
    by simp
  with p show ?thesis by (intro conjI)
qed

theorem result_text_not_for_every_block:
  "parse_messages
     [assistant_tool_use (JStr ''t1''),
      JObj [(''type'', JStr ''assistant''),
            (''message'', JObj [(''content'',
               JArr [tool_result_block (JStr ''t1'') (JStr ''out'')])])]] =
     Inr [invocation (JStr ''t1'') ''''] \<and>
   parse_messages
     [assistant_tool_use (JStr ''''),
      user_results [tool_result_block (JStr '''') (JStr ''out'')]] =
     Inr [invocation (JStr '''') ''''] \<and>
   parse_messages
     [assistant_tool_use (JStr ''t1''),
      user_results [tool_result_block (JStr ''t1'') (JStr ''first'')],
      user_results [tool_result_block (JStr ''t1'') (JStr ''second'')]] =
     Inr [invocation (JStr ''t1'') ''second'']"
  by (intro conjI; code_simp)

lemma collect_block_isl:
  "isl (collect_block maps b) = isl (collect_block (Map.empty, Map.empty) b)"
proof (cases b)
  case (JObj kvs)
  show ?thesis
  proof (cases "dict_get kvs ''type'' JNull = JStr ''tool_result''")
    case True
    show ?thesis
    proof (cases "block_result (dict_get kvs ''content'' (JStr ''''))")
      case (Inl e)
      with JObj True show ?thesis by (simp add: collect_block_def Let_def)
    next
      case (Inr r)
      with JObj True show ?thesis
        by (cases r; cases "hash_key (dict_get kvs ''tool_use_id'' (JStr ''''))")
           (simp_all add: collect_block_def Let_def)
    qed
  next
    case False
    with JObj show ?thesis by (simp add: collect_block_def)
  qed
qed (simp_all add: collect_block_def)

text \<open>
  C2, as the code has it. When the first pass returns, the text stored for a key is the
  result text of the last scanned \<open>tool_result\<close> block with that key, and none when there
  is no such block; the images stored are those of the last such block that carries an image.
  Whether a block raises does not depend on what the maps hold, so a repeated id never makes
  the pass fail. The claim as written says the texts of all blocks with one id are
  concatenated; the closed example after the theorem shows two blocks with texts \<open>first\<close>
  and \<open>second\<close>, for which \<open>second\<close> alone is stored.
\<close>

theorem collect_results_last_wins:
  assumes "collect_results all_records = Inr maps"
  shows "fst maps k = last_of spec_result_text (results_for k all_records) None \<and>
         snd maps k =
           last_of spec_result_images
             (filter (\<lambda>c. spec_result_images c \<noteq> []) (results_for k all_records)) None \<and>
         isl (collect_block maps1 b) = isl (collect_block maps2 b)"
  using collect_results_spec[OF assms, of k] collect_block_isl[of maps1 b]
    collect_block_isl[of maps2 b]
  by simp

theorem duplicate_results_overwrite:
  "(case collect_results
          [user_results [tool_result_block (JStr ''t1'') (JStr ''first''),
                         tool_result_block (JStr ''t1'') (JStr ''second'')]] of
      Inl e \<Rightarrow> None
    | Inr maps \<Rightarrow> fst maps (JStr ''t1'')) = Some ''second'' \<and>
   \<not> sublist ''first'' ''second''"
  by (intro conjI; code_simp)

theorem collect_results_last_wins_witness:
  "\<exists>maps. collect_results
       [user_results
          [tool_result_block (JStr ''t1'')
             (JArr [JObj [(''type'', JStr ''text''), (''text'', JStr ''a'')],
                    JObj [(''type'', JStr ''image''),
                          (''source'', JObj [(''type'', JStr ''base64''),
                                             (''media_type'', JStr ''image/png''),
                                             (''data'', JStr ''QUJD'')])]]),
           tool_result_block (JStr ''t1'') (JStr ''b'')]] = Inr maps \<and>
     fst maps (JStr ''t1'') = Some ''b'' \<and>
     snd maps (JStr ''t1'') = Some [DataURI (JStr ''image/png'') (JStr ''QUJD'')]"
proof -
  let ?log = "[user_results
          [tool_result_block (JStr ''t1'')
             (JArr [JObj [(''type'', JStr ''text''), (''text'', JStr ''a'')],
                    JObj [(''type'', JStr ''image''),
                          (''source'', JObj [(''type'', JStr ''base64''),
                                             (''media_type'', JStr ''image/png''),
                                             (''data'', JStr ''QUJD'')])]]),
           tool_result_block (JStr ''t1'') (JStr ''b'')]]"
  have "\<not> isl (collect_results ?log)" by code_simp
  then obtain maps where m: "collect_results ?log = Inr maps"
    by (cases "collect_results ?log") simp_all
  have a: "last_of spec_result_text (results_for (JStr ''t1'') ?log) None = Some ''b''"
    by code_simp
  have b: "last_of spec_result_images
             (filter (\<lambda>c. spec_result_images c \<noteq> []) (results_for (JStr ''t1'') ?log)) None =
           Some [DataURI (JStr ''image/png'') (JStr ''QUJD'')]"
    by code_simp
  from collect_results_last_wins[OF m, of "JStr ''t1''" "(Map.empty, Map.empty)" JNull
      "(Map.empty, Map.empty)"] a b
  have "fst maps (JStr ''t1'') = Some ''b'' \<and>
        snd maps (JStr ''t1'') = Some [DataURI (JStr ''image/png'') (JStr ''QUJD'')]"
    by simp
  with m show ?thesis by blast
qed


subsection \<open>Stripping the annotated spans\<close>



















end
